theory Spec2Isabelle
  imports Main "HOL-Library.Word"
begin

section \<open>Buffers and errors\<close>

text \<open>
  A Node.js \<open>Buffer\<close> is a sequence of bytes. Exceptions are values: every function that
  can throw returns \<open>error + 'a\<close>, with \<open>Inl\<close> the exception.
\<close>

type_synonym byte = "8 word"
type_synonym buffer = "byte list"

datatype error =
    EncodingError nat string
  | TypeError string

definition bindE :: "error + 'a \<Rightarrow> ('a \<Rightarrow> error + 'b) \<Rightarrow> error + 'b" where
  "bindE m f = (case m of Inl e \<Rightarrow> Inl e | Inr x \<Rightarrow> f x)"

section \<open>The bufio reader and writer\<close>

text \<open>
  \<open>NodeEncoding\<close> reads and writes through the \<open>bufio\<close> package, an external
  dependency whose code is not among this repository's sources. The definitions of this
  section give the behaviour of the calls \<open>NodeEncoding\<close> makes: \<open>bufio.read(buffer, true)\<close>
  is a \<open>BufferReader\<close> (the flag only chooses between a slice and a copy), \<open>bufio.write(size)\<close>
  is a \<open>StaticWriter\<close> over a buffer of exactly \<open>size\<close> bytes. Every read and write first
  checks that it stays inside the buffer and throws an \<open>EncodingError\<close> carrying the current
  offset otherwise. \<open>readU32\<close> and \<open>writeU32\<close> are the little-endian calls of the package
  (their big-endian siblings are \<open>readU32BE\<close> and \<open>writeU32BE\<close>).
\<close>

record reader =
  rdata :: buffer
  roffset :: nat

definition bufio_read :: "buffer \<Rightarrow> reader" where
  "bufio_read b = \<lparr>rdata = b, roffset = 0\<rparr>"

definition rcheck :: "reader \<Rightarrow> nat \<Rightarrow> error + unit" where
  "rcheck r n =
     (if roffset r + n > length (rdata r)
      then Inl (EncodingError (roffset r) ''Out of bounds read'')
      else Inr ())"

definition left :: "reader \<Rightarrow> error + nat" where
  "left r = bindE (rcheck r 0) (\<lambda>_. Inr (length (rdata r) - roffset r))"

definition readBytes :: "nat \<Rightarrow> reader \<Rightarrow> error + (buffer \<times> reader)" where
  "readBytes n r =
     bindE (rcheck r n) (\<lambda>_.
       Inr (take n (drop (roffset r) (rdata r)), r\<lparr>roffset := roffset r + n\<rparr>))"

definition readHash :: "reader \<Rightarrow> error + (buffer \<times> reader)" where
  "readHash r = readBytes 32 r"

definition readU8 :: "reader \<Rightarrow> error + (int \<times> reader)" where
  "readU8 r =
     bindE (rcheck r 1) (\<lambda>_.
       Inr (uint (rdata r ! roffset r), r\<lparr>roffset := roffset r + 1\<rparr>))"

text \<open>The unsigned 32-bit number stored little-endian at offset \<open>off\<close> of \<open>b\<close>.\<close>

definition decodeU32 :: "buffer \<Rightarrow> nat \<Rightarrow> int" where
  "decodeU32 b off =
     uint (b ! off) + 256 * uint (b ! (off + 1)) + 65536 * uint (b ! (off + 2))
       + 16777216 * uint (b ! (off + 3))"

definition readU32 :: "reader \<Rightarrow> error + (int \<times> reader)" where
  "readU32 r =
     bindE (rcheck r 4) (\<lambda>_.
       Inr (decodeU32 (rdata r) (roffset r), r\<lparr>roffset := roffset r + 4\<rparr>))"

text \<open>
  The writer owns a buffer of fixed length and an offset. \<open>copy_at dst off src\<close> is \<open>dst\<close>
  with \<open>src\<close> copied in at \<open>off\<close>; the writer's check guarantees that \<open>src\<close> fits. The
  buffer comes from \<open>Buffer.allocUnsafeSlow\<close>, whose contents are arbitrary: they are zero
  here, and \<open>render\<close> hands the buffer out only when the offset has reached its end, that
  is, when every byte has been written.
\<close>

record writer =
  wdata :: buffer
  woffset :: nat

definition bufio_write :: "nat \<Rightarrow> writer" where
  "bufio_write n = \<lparr>wdata = replicate n 0, woffset = 0\<rparr>"

definition wcheck :: "writer \<Rightarrow> nat \<Rightarrow> error + unit" where
  "wcheck w n =
     (if woffset w + n > length (wdata w)
      then Inl (EncodingError (woffset w) ''Out of bounds write'')
      else Inr ())"

definition copy_at :: "buffer \<Rightarrow> nat \<Rightarrow> buffer \<Rightarrow> buffer" where
  "copy_at dst off src = take off dst @ src @ drop (off + length src) dst"

definition writeBytes :: "buffer \<Rightarrow> writer \<Rightarrow> error + writer" where
  "writeBytes v w =
     bindE (wcheck w (length v)) (\<lambda>_.
       Inr (w\<lparr>wdata := copy_at (wdata w) (woffset w) v, woffset := woffset w + length v\<rparr>))"

definition writeHash :: "buffer \<Rightarrow> writer \<Rightarrow> error + writer" where
  "writeHash v w =
     (if length v \<noteq> 32 then Inl (TypeError '''value' must be a(n) 32-byte hash.'')
      else writeBytes v w)"

definition writeU8 :: "int \<Rightarrow> writer \<Rightarrow> error + writer" where
  "writeU8 v w =
     bindE (wcheck w 1) (\<lambda>_.
       Inr (w\<lparr>wdata := copy_at (wdata w) (woffset w) [word_of_int v],
               woffset := woffset w + 1\<rparr>))"

text \<open>
  The four bytes of a number, least significant first. \<open>writeU32\<close> refuses a number that
  is not a safe integer (\<open>Number.isSafeInteger\<close>) with a \<open>TypeError\<close>; of a safe integer
  outside \<open>0 .. 2^32 - 1\<close> it writes the low 32 bits. \<open>NodeEncoding\<close> is only specified on
  numbers inside that range.
\<close>

definition isSafeInteger :: "int \<Rightarrow> bool" where
  "isSafeInteger v = (- 9007199254740991 \<le> v \<and> v \<le> 9007199254740991)"

definition encodeU32 :: "int \<Rightarrow> buffer" where
  "encodeU32 v =
     [word_of_int v, word_of_int (v div 256), word_of_int (v div 65536),
      word_of_int (v div 16777216)]"

definition writeU32 :: "int \<Rightarrow> writer \<Rightarrow> error + writer" where
  "writeU32 v w =
     bindE (wcheck w 4) (\<lambda>_.
       if \<not> isSafeInteger v then Inl (TypeError '''num' must be a(n) integer.'')
       else Inr (w\<lparr>wdata := copy_at (wdata w) (woffset w) (encodeU32 v),
                    woffset := woffset w + 4\<rparr>))"

definition render :: "writer \<Rightarrow> error + buffer" where
  "render w =
     (if woffset w \<noteq> length (wdata w)
      then Inl (EncodingError (woffset w) ''Out of bounds write'')
      else Inr (wdata w))"

section \<open>NodeValue and NodeEncoding\<close>

text \<open>
  \<open>NodeValue<Buffer>\<close> is the union of \<open>LeftNodeValue\<close> and \<open>RightNodeValue\<close>, told apart by
  their \<open>side\<close> field. The optional \<open>rightIndex\<close> is an \<open>option\<close>: \<open>None\<close> is \<open>undefined\<close>.
  Indices are JavaScript numbers, here integers.
\<close>

datatype Side = Left | Right

datatype NodeValue =
    LeftNodeValue buffer int "int option"
  | RightNodeValue buffer int

fun side :: "NodeValue \<Rightarrow> Side" where
  "side (LeftNodeValue h p r) = Left"
| "side (RightNodeValue h l) = Right"

fun hashOfSibling :: "NodeValue \<Rightarrow> buffer" where
  "hashOfSibling (LeftNodeValue h p r) = h"
| "hashOfSibling (RightNodeValue h l) = h"

fun rightIndex :: "NodeValue \<Rightarrow> int option" where
  "rightIndex (LeftNodeValue h p r) = r"
| "rightIndex (RightNodeValue h l) = None"

text \<open>\<open>parentIndex\<close> of a left node, \<open>leftIndex\<close> of a right node.\<close>

fun otherIndex :: "NodeValue \<Rightarrow> int" where
  "otherIndex (LeftNodeValue h p r) = p"
| "otherIndex (RightNodeValue h l) = l"

definition getSize :: "NodeValue \<Rightarrow> nat" where
  "getSize v =
     (let sz = 0;
          sz = sz + 1;
          sz = sz + 32;
          sz = sz + 4;
          sz = (if side v = Left \<and> rightIndex v \<noteq> None then sz + 4 else sz)
      in sz)"

definition serialize :: "NodeValue \<Rightarrow> error + buffer" where
  "serialize v =
     bindE (writeHash (hashOfSibling v) (bufio_write (getSize v))) (\<lambda>bw.
     bindE (case v of
              LeftNodeValue h p r \<Rightarrow>
                bindE (writeU8 0 bw) (\<lambda>bw.
                bindE (writeU32 p bw) (\<lambda>bw.
                  case r of Some ri \<Rightarrow> writeU32 ri bw | None \<Rightarrow> Inr bw))
            | RightNodeValue h l \<Rightarrow>
                bindE (writeU8 1 bw) (\<lambda>bw. writeU32 l bw))
       render)"

definition deserialize :: "buffer \<Rightarrow> error + NodeValue" where
  "deserialize b =
     bindE (readHash (bufio_read b)) (\<lambda>(h, rd).
     bindE (readU8 rd) (\<lambda>(sideNumber, rd).
     bindE (readU32 rd) (\<lambda>(other, rd).
       if (if sideNumber = 0 then Left else Right) = Left then
         bindE (left rd) (\<lambda>n.
           if n > 0 then bindE (readU32 rd) (\<lambda>(ri, rd). Inr (LeftNodeValue h other (Some ri)))
           else Inr (LeftNodeValue h other None))
       else Inr (RightNodeValue h other))))"

text \<open>
  A valid node value: a 32-byte sibling hash and indices that are unsigned 32-bit numbers.
\<close>

definition isU32 :: "int \<Rightarrow> bool" where
  "isU32 n = (0 \<le> n \<and> n < 4294967296)"

fun validNodeValue :: "NodeValue \<Rightarrow> bool" where
  "validNodeValue (LeftNodeValue h p r) =
     (length h = 32 \<and> isU32 p \<and> (case r of None \<Rightarrow> True | Some ri \<Rightarrow> isU32 ri))"
| "validNodeValue (RightNodeValue h l) = (length h = 32 \<and> isU32 l)"

text \<open>
  The layout the specification gives for an encoded node, to compare \<open>serialize\<close> with:
  the sibling hash, one tag byte (0 for a left node, 1 for a right node), the other index
  and, for a left node with a right index, that index.
\<close>

text \<open>
  The specification's words for the two states of a node (its section 3): a left node is
  open while its right index is absent; a node is paired when it is a right node or a left
  node whose right index is present.
\<close>

definition isOpen :: "NodeValue \<Rightarrow> bool" where
  "isOpen v = (side v = Left \<and> rightIndex v = None)"

definition isPaired :: "NodeValue \<Rightarrow> bool" where
  "isPaired v = (side v = Right \<or> rightIndex v \<noteq> None)"

definition tagByte :: "NodeValue \<Rightarrow> byte" where
  "tagByte v = (case side v of Left \<Rightarrow> 0 | Right \<Rightarrow> 1)"

definition layout :: "NodeValue \<Rightarrow> buffer" where
  "layout v = hashOfSibling v @ [tagByte v] @ encodeU32 (otherIndex v) @
     (case rightIndex v of None \<Rightarrow> [] | Some ri \<Rightarrow> encodeU32 ri)"

section \<open>The chain benchmark command\<close>

text \<open>
  \<open>BenchmarkChain.start\<close> drives two nodes: the node of the command, whose chain is only
  read, and a benchmark node on the data directory \<open>~/.ironfishbenchmark\<close>, whose chain is
  written. The chain, the SDK and the command framework are not part of this development;
  \<open>start\<close> is modelled over an environment that answers each call it makes. An awaited
  call either returns or throws. The store of the benchmark node is a state of type \<open>'s\<close>
  that the calls on it pass along. Elapsed times are not modelled: the two log lines that
  report them carry no number here.
\<close>

datatype exn =
    ExitError nat
  | AssertionError
  | Thrown string

record header =
  sequence :: nat
  noteCommitmentSize :: nat

datatype message =
    Stack string
  | TooCorrupt string
  | NeedSync
  | BenchHash buffer
  | RealHash buffer
  | RehashedNotes nat
  | TimeToRehash
  | BenchmarkComplete

text \<open>
  What \<open>start\<close> does that can be observed, in order: the progress lines
  (\<open>CliUx.ux.action\<close>), the log lines, and the calls on the chain of the benchmark node.
\<close>

datatype 'blk event =
    ActionStart string
  | ActionStop string
  | Log message
  | AddBlock 'blk
  | RehashTree
  | RootHash
  | Size

record ('s, 'blk) env =
  parseFlags :: "exn + unit"
  openNode :: "exn + unit"
  isEmpty :: bool
  chainDatabasePath :: string
  headSequence :: nat
  getHeaderAtSequence :: "nat \<Rightarrow> exn + header option"
  genesis :: header
  iterateTo :: "header \<Rightarrow> header \<Rightarrow> header list \<times> exn option"
  getBlock :: "header \<Rightarrow> exn + 'blk option"
  pastRoot :: "nat \<Rightarrow> exn + buffer"
  benchData :: 's
  initBenchmark :: "exn + unit"
  openBenchmark :: "'s \<Rightarrow> string option \<times> 's"
  addBlock :: "'blk \<Rightarrow> 's \<Rightarrow> exn option \<times> 's"
  rehashTree :: "'s \<Rightarrow> exn option \<times> 's"
  rootHash :: "'s \<Rightarrow> exn + buffer"
  notesSize :: "'s \<Rightarrow> exn + nat"

text \<open>
  \<open>parseFlags\<close> is \<open>this.parse\<close>, whose flags \<open>start\<close> does not read. \<open>openNode\<close> stands
  for \<open>this.sdk.node()\<close>, \<open>openDB\<close> and \<open>chain.open\<close> on the node of the command, and
  \<open>initBenchmark\<close> for \<open>IronfishSdk.init\<close> and \<open>benchmarkSdk.node()\<close>. \<open>openBenchmark\<close> is
  \<open>openDB\<close> followed by \<open>chain.open\<close> on the benchmark node: it returns the store it leaves
  and, when one of the two throws, the stack of the exception. \<open>iterateTo\<close> gives the
  headers the generator yields and the exception that ends it, if any. \<open>addBlock\<close> and
  \<open>rehashTree\<close> return the store they leave, also when they throw.
\<close>

record ('s, 'blk) run =
  bench :: 's
  trace :: "'blk event list"

type_synonym ('s, 'blk, 'a) cmd = "('s, 'blk) run \<Rightarrow> (exn + 'a) \<times> ('s, 'blk) run"

definition ret :: "'a \<Rightarrow> ('s, 'blk, 'a) cmd" where
  "ret x r = (Inr x, r)"

definition throw :: "exn \<Rightarrow> ('s, 'blk, 'a) cmd" where
  "throw e r = (Inl e, r)"

definition bindM :: "('s, 'blk, 'a) cmd \<Rightarrow> ('a \<Rightarrow> ('s, 'blk, 'b) cmd) \<Rightarrow> ('s, 'blk, 'b) cmd" where
  "bindM m f r = (case m r of (Inl e, r') \<Rightarrow> (Inl e, r') | (Inr x, r') \<Rightarrow> f x r')"

definition await :: "exn + 'a \<Rightarrow> ('s, 'blk, 'a) cmd" where
  "await res r = (res, r)"

definition emit :: "'blk event \<Rightarrow> ('s, 'blk, unit) cmd" where
  "emit ev r = (Inr (), r\<lparr>trace := trace r @ [ev]\<rparr>)"

text \<open>A call that writes the benchmark store, and a call that reads it.\<close>

definition callBench :: "'blk event \<Rightarrow> ('s \<Rightarrow> exn option \<times> 's) \<Rightarrow> ('s, 'blk, unit) cmd" where
  "callBench ev f r =
     (case f (bench r) of
        (None, s) \<Rightarrow> (Inr (), \<lparr>bench = s, trace = trace r @ [ev]\<rparr>)
      | (Some e, s) \<Rightarrow> (Inl e, \<lparr>bench = s, trace = trace r @ [ev]\<rparr>))"

definition readBench :: "'blk event \<Rightarrow> ('s \<Rightarrow> exn + 'a) \<Rightarrow> ('s, 'blk, 'a) cmd" where
  "readBench ev f r = (f (bench r), r\<lparr>trace := trace r @ [ev]\<rparr>)"

text \<open>\<open>Assert.isNotNull\<close> throws on \<open>null\<close>.\<close>

definition isNotNull :: "'a option \<Rightarrow> ('s, 'blk, 'a) cmd" where
  "isNotNull v = (case v of None \<Rightarrow> throw AssertionError | Some x \<Rightarrow> ret x)"

text \<open>The \<open>try\<close> block around the opening of the benchmark node: the exception is logged.\<close>

definition tryOpenBenchmark :: "('s, 'blk) env \<Rightarrow> ('s, 'blk, unit) cmd" where
  "tryOpenBenchmark env r =
     (case openBenchmark env (bench r) of
        (None, s) \<Rightarrow> (Inr (), r\<lparr>bench := s\<rparr>)
      | (Some stack, s) \<Rightarrow> (Inr (), \<lparr>bench = s, trace = trace r @ [Log (Stack stack)]\<rparr>))"

definition blocksToBenchmark :: nat where
  "blocksToBenchmark = 500"

text \<open>The body of the \<open>for await\<close> loop, once for each header the generator yields.\<close>

fun forHeaders :: "('s, 'blk) env \<Rightarrow> header list \<Rightarrow> ('s, 'blk, unit) cmd" where
  "forHeaders env [] = ret ()"
| "forHeaders env (h # hs) =
     bindM (await (getBlock env h)) (\<lambda>block.
     bindM (isNotNull block) (\<lambda>block.
     bindM (callBench (AddBlock block) (addBlock env block)) (\<lambda>_.
       forHeaders env hs)))"

definition forAwait :: "('s, 'blk) env \<Rightarrow> header list \<times> exn option \<Rightarrow> ('s, 'blk, unit) cmd" where
  "forAwait env it =
     bindM (forHeaders env (fst it)) (\<lambda>_.
       case snd it of None \<Rightarrow> ret () | Some e \<Rightarrow> throw e)"

text \<open>\<open>this.exit(0)\<close> throws the \<open>ExitError\<close> of the command framework.\<close>

definition start :: "('s, 'blk) env \<Rightarrow> (exn + unit) \<times> ('s, 'blk) run" where
  "start env =
     (bindM (await (parseFlags env)) (\<lambda>_.
      bindM (emit (ActionStart ''Opening node'')) (\<lambda>_.
      bindM (await (openNode env)) (\<lambda>_.
      bindM (emit (ActionStop ''done.'')) (\<lambda>_.
      bindM (emit (ActionStart ''Opening benchmark node'')) (\<lambda>_.
      bindM (await (initBenchmark env)) (\<lambda>_.
      bindM (tryOpenBenchmark env) (\<lambda>_.
      bindM (emit (ActionStop ''done.'')) (\<lambda>_.
      bindM (if isEmpty env
             then bindM (emit (Log (TooCorrupt (chainDatabasePath env)))) (\<lambda>_.
                    throw (ExitError 0))
             else ret ()) (\<lambda>_.
      bindM (if headSequence env < blocksToBenchmark
             then bindM (emit (Log NeedSync)) (\<lambda>_. throw (ExitError 0))
             else ret ()) (\<lambda>_.
      bindM (await (getHeaderAtSequence env blocksToBenchmark)) (\<lambda>finalHeader.
      bindM (isNotNull finalHeader) (\<lambda>finalHeader.
      bindM (forAwait env (iterateTo env (genesis env) finalHeader)) (\<lambda>_.
      bindM (callBench RehashTree (rehashTree env)) (\<lambda>_.
      bindM (readBench RootHash (rootHash env)) (\<lambda>benchRootHash.
      bindM (await (pastRoot env (noteCommitmentSize finalHeader))) (\<lambda>realRootHash.
      bindM (emit (Log (BenchHash benchRootHash))) (\<lambda>_.
      bindM (emit (Log (RealHash realRootHash))) (\<lambda>_.
      bindM (readBench Size (notesSize env)) (\<lambda>n.
      bindM (emit (Log (RehashedNotes n))) (\<lambda>_.
      bindM (emit (Log TimeToRehash)) (\<lambda>_.
        emit (Log BenchmarkComplete)))))))))))))))))))))))
       \<lparr>bench = benchData env, trace = []\<rparr>"

text \<open>
  The store of the benchmark node after \<open>addBlock\<close> of each block in turn, none of them
  throwing; \<open>None\<close> when one throws.
\<close>

fun addBlocks :: "('s, 'blk) env \<Rightarrow> 'blk list \<Rightarrow> 's \<Rightarrow> 's option" where
  "addBlocks env [] s = Some s"
| "addBlocks env (b # bs) s =
     (case addBlock env b s of (None, s') \<Rightarrow> addBlocks env bs s' | (Some e, s') \<Rightarrow> None)"

text \<open>An environment to run \<open>start\<close> on: a store that lists the blocks added to it.\<close>

definition exampleEnv :: "(nat list, nat) env" where
  "exampleEnv =
     \<lparr>parseFlags = Inr (), openNode = Inr (), isEmpty = False, chainDatabasePath = ''/db'', headSequence = 600,
      getHeaderAtSequence = (\<lambda>n. Inr (Some \<lparr>sequence = n, noteCommitmentSize = 2 * n\<rparr>)),
      genesis = \<lparr>sequence = 1, noteCommitmentSize = 3\<rparr>,
      iterateTo = (\<lambda>a b. ([a, b], None)),
      getBlock = (\<lambda>h. Inr (Some (sequence h))),
      pastRoot = (\<lambda>n. Inr [of_nat n]),
      benchData = [], initBenchmark = Inr (), openBenchmark = (\<lambda>s. (None, s)),
      addBlock = (\<lambda>b s. (None, s @ [b])), rehashTree = (\<lambda>s. (None, s)),
      rootHash = (\<lambda>s. Inr (map of_nat s)), notesSize = (\<lambda>s. Inr (length s))\<rparr>"

section \<open>Lemmas on the encoding\<close>

lemma u32_bytes:
  fixes v :: int
  assumes "0 \<le> v" "v < 4294967296"
  shows "v mod 256 + 256 * (v div 256 mod 256) + 65536 * (v div 65536 mod 256) +
         16777216 * (v div 16777216 mod 256) = v"
proof -
  define a where "a = v div 256"
  define b where "b = a div 256"
  define c where "c = b div 256"
  have c: "c = v div 16777216" and b: "b = v div 65536"
    by (simp_all add: a_def b_def c_def div_mult2_eq [symmetric])
  have "0 \<le> c" "c < 256" using assms unfolding c by simp_all
  then have cm: "c mod 256 = c" by simp
  have v: "v = 256 * a + v mod 256" by (simp add: a_def)
  have a: "a = 256 * b + a mod 256" by (simp add: b_def)
  have b': "b = 256 * c + b mod 256" by (simp add: c_def)
  show ?thesis
    using v a b' cm unfolding b [symmetric] c [symmetric] a_def [symmetric] by linarith
qed

lemma decode_encode_at:
  assumes "isU32 v"
  shows "decodeU32 (pre @ encodeU32 v @ post) (length pre) = v"
proof -
  have "decodeU32 (pre @ encodeU32 v @ post) (length pre) =
      v mod 256 + 256 * (v div 256 mod 256) + 65536 * (v div 65536 mod 256) +
      16777216 * (v div 16777216 mod 256)"
    by (simp add: decodeU32_def encodeU32_def nth_append uint_word_of_int)
  also have "\<dots> = v"
    using assms by (intro u32_bytes) (simp_all add: isU32_def)
  finally show ?thesis .
qed

lemma length_encodeU32: "length (encodeU32 v) = 4"
  by (simp add: encodeU32_def)

lemma isU32_safe: "isU32 v \<Longrightarrow> isSafeInteger v"
  by (simp add: isU32_def isSafeInteger_def)

lemma serialize_layout:
  assumes "validNodeValue v"
  shows "serialize v = Inr (layout v)"
  using assms
  by (cases v; cases "rightIndex v")
     (simp_all add: serialize_def layout_def tagByte_def getSize_def bindE_def writeHash_def
       writeBytes_def writeU8_def writeU32_def wcheck_def bufio_write_def copy_at_def render_def
       length_encodeU32 isU32_safe)

lemma deserialize_cases:
  "deserialize b =
    (if length b < 32 then Inl (EncodingError 0 ''Out of bounds read'')
     else if length b < 33 then Inl (EncodingError 32 ''Out of bounds read'')
     else if length b < 37 then Inl (EncodingError 33 ''Out of bounds read'')
     else if b ! 32 = 0 then
       (if length b = 37 then Inr (LeftNodeValue (take 32 b) (decodeU32 b 33) None)
        else if length b < 41 then Inl (EncodingError 37 ''Out of bounds read'')
        else Inr (LeftNodeValue (take 32 b) (decodeU32 b 33) (Some (decodeU32 b 37))))
     else Inr (RightNodeValue (take 32 b) (decodeU32 b 33)))"
  by (simp add: deserialize_def bindE_def readHash_def readBytes_def readU8_def readU32_def
      left_def rcheck_def bufio_read_def uint_0_iff)

lemma length_layout:
  "length (layout v) = length (hashOfSibling v) + 5 + (case rightIndex v of None \<Rightarrow> 0 | Some ri \<Rightarrow> 4)"
  by (simp add: layout_def length_encodeU32 split: option.split)

lemma layout_tag: "length (hashOfSibling v) = 32 \<Longrightarrow> layout v ! 32 = tagByte v"
  by (simp add: layout_def nth_append)

lemma layout_hash: "length (hashOfSibling v) = 32 \<Longrightarrow> take 32 (layout v) = hashOfSibling v"
  by (simp add: layout_def)

lemma layout_other:
  assumes "length (hashOfSibling v) = 32" "isU32 (otherIndex v)"
  shows "decodeU32 (layout v) 33 = otherIndex v"
proof -
  have "layout v = (hashOfSibling v @ [tagByte v]) @ encodeU32 (otherIndex v) @
     (case rightIndex v of None \<Rightarrow> [] | Some ri \<Rightarrow> encodeU32 ri)"
    by (simp add: layout_def)
  moreover have "length (hashOfSibling v @ [tagByte v]) = 33"
    using assms(1) by simp
  ultimately show ?thesis
    using decode_encode_at [OF assms(2), of "hashOfSibling v @ [tagByte v]"] by metis
qed

lemma layout_right:
  assumes "length (hashOfSibling v) = 32" "rightIndex v = Some ri" "isU32 ri"
  shows "decodeU32 (layout v) 37 = ri"
proof -
  have "layout v = (hashOfSibling v @ [tagByte v] @ encodeU32 (otherIndex v)) @ encodeU32 ri @ []"
    using assms(2) by (simp add: layout_def)
  moreover have "length (hashOfSibling v @ [tagByte v] @ encodeU32 (otherIndex v)) = 37"
    using assms(1) by (simp add: length_encodeU32)
  ultimately show ?thesis
    using decode_encode_at [OF assms(3), of "hashOfSibling v @ [tagByte v] @ encodeU32 (otherIndex v)" "[]"]
    by metis
qed

lemma deserialize_layout:
  assumes "validNodeValue v"
  shows "deserialize (layout v) = Inr v"
proof (cases v)
  case (LeftNodeValue h p r)
  with assms have h: "length (hashOfSibling v) = 32" and p: "isU32 (otherIndex v)" by simp_all
  show ?thesis
  proof (cases r)
    case None
    with LeftNodeValue have "rightIndex v = None" by simp
    then have "length (layout v) = 37" using h by (simp add: length_layout)
    moreover have "layout v ! 32 = 0" using h LeftNodeValue by (simp add: layout_tag tagByte_def)
    ultimately show ?thesis
      using layout_hash [OF h] layout_other [OF h p] LeftNodeValue None
      by (simp add: deserialize_cases)
  next
    case (Some ri)
    with LeftNodeValue assms have r: "rightIndex v = Some ri" "isU32 ri" by simp_all
    then have "length (layout v) = 41" using h by (simp add: length_layout)
    moreover have "layout v ! 32 = 0" using h LeftNodeValue by (simp add: layout_tag tagByte_def)
    ultimately show ?thesis
      using layout_hash [OF h] layout_other [OF h p] layout_right [OF h r] LeftNodeValue Some
      by (simp add: deserialize_cases)
  qed
next
  case (RightNodeValue h l)
  with assms have h: "length (hashOfSibling v) = 32" and p: "isU32 (otherIndex v)" by simp_all
  have "length (layout v) = 37" using h RightNodeValue by (simp add: length_layout)
  moreover have "layout v ! 32 = 1" using h RightNodeValue by (simp add: layout_tag tagByte_def)
  ultimately show ?thesis
    using layout_hash [OF h] layout_other [OF h p] RightNodeValue
    by (simp add: deserialize_cases)
qed

lemma valid_hash: "validNodeValue v \<Longrightarrow> length (hashOfSibling v) = 32"
  by (cases v) simp_all

section \<open>The claims on NodeEncoding\<close>

text \<open>
  Claim C1: for every valid node value, decoding the encoded node gives the node back:
  \<open>deserialize (serialize n) = n\<close>, and \<open>serialize\<close> does not throw.
\<close>

theorem roundtrip:
  assumes "validNodeValue n"
  shows "bindE (serialize n) deserialize = Inr n"
  using assms by (simp add: serialize_layout valid_hash deserialize_layout bindE_def)

theorem roundtrip_witness:
  "validNodeValue (LeftNodeValue (replicate 32 7) 258 (Some 5)) \<and>
   bindE (serialize (LeftNodeValue (replicate 32 7) 258 (Some 5))) deserialize =
     Inr (LeftNodeValue (replicate 32 7) 258 (Some 5))"
proof -
  have v: "validNodeValue (LeftNodeValue (replicate 32 7) 258 (Some 5))"
    by (simp add: isU32_def)
  from v roundtrip [OF v] show ?thesis by simp
qed

text \<open>
  Claim C2: as stated (every buffer whose length is not the encoded size for its tag is
  rejected) the claim fails: a right-tagged buffer of 38 bytes decodes, the trailing byte
  ignored.
\<close>

theorem deserialize_accepts_longer_buffer:
  "length (replicate 32 (7::byte) @ [1, 2, 1, 0, 0, 9]) \<noteq> 37 \<and>
   length (replicate 32 (7::byte) @ [1, 2, 1, 0, 0, 9]) \<noteq> 41 \<and>
   (replicate 32 (7::byte) @ [1, 2, 1, 0, 0, 9]) ! 32 = 1 \<and>
   deserialize (replicate 32 7 @ [1, 2, 1, 0, 0, 9]) = Inr (RightNodeValue (replicate 32 7) 258)"
  by (simp add: deserialize_cases decodeU32_def nth_append)

text \<open>
  Claim C2, amended: \<open>deserialize\<close> throws exactly on the buffers that end before a field it
  reads, and then the error is the reader's out-of-bounds \<open>EncodingError\<close>: buffers
  shorter than 37 bytes, and left-tagged buffers of 38, 39 or 40 bytes. Every other buffer
  decodes to a node.
\<close>

theorem deserialize_fails_iff:
  "((\<exists>off. deserialize b = Inl (EncodingError off ''Out of bounds read'')) =
      (length b < 37 \<or> b ! 32 = 0 \<and> 37 < length b \<and> length b < 41)) \<and>
   ((\<exists>n. deserialize b = Inr n) =
      (\<not> (length b < 37 \<or> b ! 32 = 0 \<and> 37 < length b \<and> length b < 41)))"
  by (auto simp add: deserialize_cases)

text \<open>
  Claim C3: as stated (37 bytes for a paired node, 41 bytes for an open left node), in the
  specification's own sense of open and paired, the claim fails: a left node that has its
  right index is paired and takes 41 bytes, and an open left node takes 37 bytes.
\<close>

theorem paired_left_node_takes_41_bytes:
  "validNodeValue (LeftNodeValue (replicate 32 7) 258 (Some 5)) \<and>
   isPaired (LeftNodeValue (replicate 32 7) 258 (Some 5)) \<and>
   serialize (LeftNodeValue (replicate 32 7) 258 (Some 5)) =
     Inr (replicate 32 7 @ [0, 2, 1, 0, 0, 5, 0, 0, 0]) \<and>
   length (replicate 32 (7 :: byte) @ [0, 2, 1, 0, 0, 5, 0, 0, 0]) = 41 \<and>
   validNodeValue (LeftNodeValue (replicate 32 7) 258 None) \<and>
   isOpen (LeftNodeValue (replicate 32 7) 258 None) \<and>
   serialize (LeftNodeValue (replicate 32 7) 258 None) =
     Inr (replicate 32 7 @ [0, 2, 1, 0, 0]) \<and>
   length (replicate 32 (7 :: byte) @ [0, 2, 1, 0, 0]) = 37"
proof -
  have v1: "validNodeValue (LeftNodeValue (replicate 32 7) 258 (Some 5))"
    and v2: "validNodeValue (LeftNodeValue (replicate 32 7) 258 None)"
    by (simp_all add: isU32_def)
  show ?thesis
    using v1 v2
    by (simp add: serialize_layout [OF v1] serialize_layout [OF v2] layout_def tagByte_def
        encodeU32_def isPaired_def isOpen_def)
qed

text \<open>
  Claim C3, amended: the length of the encoded node is determined by the side and by
  whether a right index is present: 41 bytes for a left node with a right index (a paired
  left node), 37 bytes for every other valid node (a right node, or an open left node,
  which has no right index); no other length occurs.
\<close>

theorem serialize_length:
  assumes "validNodeValue n"
  shows "\<exists>b. serialize n = Inr b \<and>
           length b = (if side n = Left \<and> rightIndex n \<noteq> None then 41 else 37)"
  using assms
  by (cases n) (auto simp add: serialize_layout valid_hash length_layout split: option.split)

theorem serialize_length_witness:
  "validNodeValue (LeftNodeValue (replicate 32 7) 258 (Some 5)) \<and>
   validNodeValue (LeftNodeValue (replicate 32 7) 258 None) \<and>
   validNodeValue (RightNodeValue (replicate 32 7) 258) \<and>
   (\<exists>b. serialize (LeftNodeValue (replicate 32 7) 258 (Some 5)) = Inr b \<and> length b = 41) \<and>
   (\<exists>b. serialize (LeftNodeValue (replicate 32 7) 258 None) = Inr b \<and> length b = 37) \<and>
   (\<exists>b. serialize (RightNodeValue (replicate 32 7) 258) = Inr b \<and> length b = 37)"
proof -
  have v1: "validNodeValue (LeftNodeValue (replicate 32 7) 258 (Some 5))"
    and v2: "validNodeValue (LeftNodeValue (replicate 32 7) 258 None)"
    and v3: "validNodeValue (RightNodeValue (replicate 32 7) 258)"
    by (simp_all add: isU32_def)
  from v1 v2 v3 serialize_length [OF v1] serialize_length [OF v2] serialize_length [OF v3]
  show ?thesis by simp
qed

text \<open>
  Claim C4: \<open>getSize\<close> depends only on the shape of the node (two nodes of the same side that
  agree on whether a right index is present have the same size), and for a valid node it is
  the length of what \<open>serialize\<close> returns.
\<close>

theorem getSize_agrees:
  assumes "validNodeValue n" "side m = side n" "(rightIndex m = None) = (rightIndex n = None)"
  shows "getSize m = getSize n \<and> (\<exists>b. serialize n = Inr b \<and> length b = getSize n)"
proof -
  have "getSize m = getSize n"
    using assms(2,3) by (simp add: getSize_def)
  moreover have "length (layout n) = getSize n"
    using valid_hash [OF assms(1)]
    by (cases n) (simp_all add: length_layout getSize_def split: option.split)
  ultimately show ?thesis
    using assms(1) by (simp add: serialize_layout valid_hash)
qed

theorem getSize_agrees_witness:
  "validNodeValue (LeftNodeValue (replicate 32 7) 258 (Some 5)) \<and>
   getSize (LeftNodeValue [] 0 (Some 70000)) = getSize (LeftNodeValue (replicate 32 7) 258 (Some 5)) \<and>
   (\<exists>b. serialize (LeftNodeValue (replicate 32 7) 258 (Some 5)) = Inr b \<and>
      length b = getSize (LeftNodeValue (replicate 32 7) 258 (Some 5)))"
proof -
  have v: "validNodeValue (LeftNodeValue (replicate 32 7) 258 (Some 5))"
    by (simp add: isU32_def)
  from v getSize_agrees [OF v, of "LeftNodeValue [] 0 (Some 70000)"] show ?thesis by simp
qed

text \<open>
  Claim C5: the encoded node is, in order, the 32-byte sibling hash, the tag byte (0 for
  \<open>Left\<close>, 1 for \<open>Right\<close>), the other index (\<open>parentIndex\<close> or \<open>leftIndex\<close>) as four bytes that
  read back as the same unsigned number, and then four more bytes for the right index exactly
  when one is present, which only a left node can have.
\<close>

theorem serialize_fields_in_order:
  assumes "validNodeValue n"
  shows "serialize n =
           Inr (hashOfSibling n @ [case side n of Left \<Rightarrow> 0 | Right \<Rightarrow> 1] @
                encodeU32 (otherIndex n) @
                (case rightIndex n of None \<Rightarrow> [] | Some ri \<Rightarrow> encodeU32 ri)) \<and>
         length (hashOfSibling n) = 32 \<and>
         length (encodeU32 (otherIndex n)) = 4 \<and>
         decodeU32 (encodeU32 (otherIndex n)) 0 = otherIndex n \<and>
         (case rightIndex n of None \<Rightarrow> True
          | Some ri \<Rightarrow> side n = Left \<and> length (encodeU32 ri) = 4 \<and> decodeU32 (encodeU32 ri) 0 = ri)"
proof -
  have o: "isU32 (otherIndex n)" using assms by (cases n) simp_all
  have "decodeU32 (encodeU32 (otherIndex n)) 0 = otherIndex n"
    using decode_encode_at [OF o, of "[]" "[]"] by simp
  moreover have "side n = Left \<and> length (encodeU32 ri) = 4 \<and> decodeU32 (encodeU32 ri) 0 = ri"
    if "rightIndex n = Some ri" for ri
  proof -
    from that assms have "isU32 ri" "side n = Left" by (cases n; simp)+
    then show ?thesis using decode_encode_at [of ri "[]" "[]"] by (simp add: length_encodeU32)
  qed
  ultimately show ?thesis
    using assms
    by (simp add: serialize_layout valid_hash layout_def tagByte_def length_encodeU32
        split: option.split)
qed

theorem serialize_fields_in_order_witness:
  "validNodeValue (LeftNodeValue (replicate 32 7) 258 (Some 5)) \<and>
   serialize (LeftNodeValue (replicate 32 7) 258 (Some 5)) =
     Inr (replicate 32 7 @ [0] @ [2, 1, 0, 0] @ [5, 0, 0, 0])"
proof -
  have v: "validNodeValue (LeftNodeValue (replicate 32 7) 258 (Some 5))"
    by (simp add: isU32_def)
  from v serialize_fields_in_order [OF v] show ?thesis by (simp add: encodeU32_def)
qed

text \<open>
  Claim C6: whenever \<open>deserialize\<close> returns a node, its sibling hash is bytes 0 to 31 of the
  buffer, its side comes from byte 32, its other index from bytes 33 to 36, and it has a
  right index exactly when the tag byte is that of \<open>Left\<close> and the buffer goes on after byte
  36; that right index is then read from bytes 37 to 40. No byte of the buffer says whether
  a right index follows: the same 37 bytes decode without one, and with one when four more
  bytes follow.
\<close>

theorem deserialize_reads_in_order:
  assumes "deserialize b = Inr n"
  shows "hashOfSibling n = take 32 b \<and>
         side n = (if b ! 32 = 0 then Left else Right) \<and>
         otherIndex n = decodeU32 b 33 \<and>
         (rightIndex n \<noteq> None) = (b ! 32 = 0 \<and> 37 < length b) \<and>
         rightIndex n = (if b ! 32 = 0 \<and> 37 < length b then Some (decodeU32 b 37) else None)"
  using assms by (auto simp add: deserialize_cases split: if_splits)

theorem deserialize_reads_in_order_witness:
  "deserialize (replicate 32 7 @ [0, 2, 1, 0, 0]) = Inr (LeftNodeValue (replicate 32 7) 258 None) \<and>
   rightIndex (LeftNodeValue (replicate 32 7) 258 None) = None \<and>
   deserialize (replicate 32 7 @ [0, 2, 1, 0, 0] @ [9, 0, 0, 0]) =
     Inr (LeftNodeValue (replicate 32 7) 258 (Some 9)) \<and>
   rightIndex (LeftNodeValue (replicate 32 7) 258 (Some 9)) =
     Some (decodeU32 (replicate 32 7 @ [0, 2, 1, 0, 0] @ [9, 0, 0, 0]) 37)"
proof -
  have a: "deserialize (replicate 32 7 @ [0, 2, 1, 0, 0]) =
      Inr (LeftNodeValue (replicate 32 7) 258 None)"
    by (simp add: deserialize_cases decodeU32_def nth_append)
  have b: "deserialize (replicate 32 7 @ [0, 2, 1, 0, 0] @ [9, 0, 0, 0]) =
      Inr (LeftNodeValue (replicate 32 7) 258 (Some 9))"
    by (simp add: deserialize_cases decodeU32_def nth_append)
  from a b deserialize_reads_in_order [OF a] deserialize_reads_in_order [OF b]
  show ?thesis by (simp add: nth_append)
qed

text \<open>
  Claim C8: on a buffer long enough to hold the three fixed fields, every tag byte other than
  0 gives a right node (so a tag byte of 2 decodes as \<open>Right\<close>), and a tag byte of 0 gives a
  left node, or the out-of-bounds error of the right-index read; no tag value is rejected.
\<close>

theorem deserialize_nonzero_tag_is_right:
  assumes "37 \<le> length b"
  shows "if b ! 32 = 0
         then (case deserialize b of
                 Inr n \<Rightarrow> side n = Left
               | Inl e \<Rightarrow> e = EncodingError 37 ''Out of bounds read'')
         else deserialize b = Inr (RightNodeValue (take 32 b) (decodeU32 b 33))"
  using assms by (simp add: deserialize_cases)

theorem deserialize_nonzero_tag_is_right_witness:
  "37 \<le> length (replicate 32 (7::byte) @ [2, 2, 1, 0, 0]) \<and>
   (replicate 32 (7::byte) @ [2, 2, 1, 0, 0]) ! 32 = 2 \<and>
   deserialize (replicate 32 7 @ [2, 2, 1, 0, 0]) = Inr (RightNodeValue (replicate 32 7) 258)"
  using deserialize_nonzero_tag_is_right [of "replicate 32 7 @ [2, 2, 1, 0, 0]"]
  by (simp add: nth_append decodeU32_def)

text \<open>
  Claim C9: in the encoding of a valid node the other index occupies bytes 33 to 36 and the
  right index, when present, bytes 37 to 40, each least significant byte first.
\<close>

theorem serialize_little_endian:
  assumes "validNodeValue n" "serialize n = Inr b"
  shows "uint (b ! 33) = otherIndex n mod 256 \<and>
         uint (b ! 34) = otherIndex n div 256 mod 256 \<and>
         uint (b ! 35) = otherIndex n div 65536 mod 256 \<and>
         uint (b ! 36) = otherIndex n div 16777216 mod 256 \<and>
         (case rightIndex n of None \<Rightarrow> True
          | Some ri \<Rightarrow>
              uint (b ! 37) = ri mod 256 \<and>
              uint (b ! 38) = ri div 256 mod 256 \<and>
              uint (b ! 39) = ri div 65536 mod 256 \<and>
              uint (b ! 40) = ri div 16777216 mod 256)"
proof -
  have h: "length (hashOfSibling n) = 32" by (rule valid_hash [OF assms(1)])
  have b: "b = layout n" using assms(2) serialize_layout [OF assms(1)] by simp
  show ?thesis
    using h unfolding b
    by (simp add: layout_def encodeU32_def nth_append uint_word_of_int split: option.split)
qed

theorem serialize_little_endian_witness:
  "validNodeValue (LeftNodeValue (replicate 32 7) 16909060 (Some 258)) \<and>
   serialize (LeftNodeValue (replicate 32 7) 16909060 (Some 258)) =
     Inr (replicate 32 7 @ [0, 4, 3, 2, 1, 2, 1, 0, 0]) \<and>
   uint ((replicate 32 (7::byte) @ [0, 4, 3, 2, 1, 2, 1, 0, 0]) ! 33) = 16909060 mod 256 \<and>
   uint ((replicate 32 (7::byte) @ [0, 4, 3, 2, 1, 2, 1, 0, 0]) ! 36) = 16909060 div 16777216 mod 256"
proof -
  have v: "validNodeValue (LeftNodeValue (replicate 32 7) 16909060 (Some 258))"
    by (simp add: isU32_def)
  have s: "serialize (LeftNodeValue (replicate 32 7) 16909060 (Some 258)) =
     Inr (replicate 32 7 @ [0, 4, 3, 2, 1, 2, 1, 0, 0])"
    by (simp add: serialize_layout [OF v] layout_def tagByte_def encodeU32_def)
  from v s serialize_little_endian [OF v s] show ?thesis by simp
qed

section \<open>Lemmas on the benchmark command\<close>

lemma bindM_InrE:
  assumes "bindM m f r = (Inr y, r')"
  obtains x r1 where "m r = (Inr x, r1)" "f x r1 = (Inr y, r')"
  using assms by (auto simp add: bindM_def split: prod.splits sum.splits)

lemma emit_Inr: "emit ev r = (Inr x, r1) \<longleftrightarrow> r1 = r\<lparr>trace := trace r @ [ev]\<rparr>"
  by (auto simp add: emit_def)

lemma await_Inr: "await res r = (Inr x, r1) \<longleftrightarrow> res = Inr x \<and> r1 = r"
  by (auto simp add: await_def)

lemma ret_Inr: "ret v r = (Inr x, r1) \<longleftrightarrow> x = v \<and> r1 = r"
  by (auto simp add: ret_def)

lemma throw_Inr: "throw e r = (Inr x, r1) \<longleftrightarrow> False"
  by (simp add: throw_def)

lemma isNotNull_Inr: "isNotNull v r = (Inr x, r1) \<longleftrightarrow> v = Some x \<and> r1 = r"
  by (cases v) (auto simp add: isNotNull_def throw_def ret_def)

lemma callBench_Inr:
  "callBench ev f r = (Inr x, r1) \<longleftrightarrow>
     f (bench r) = (None, bench r1) \<and> trace r1 = trace r @ [ev]"
  by (cases "f (bench r)"; cases "fst (f (bench r))"; cases r1) (auto simp add: callBench_def)

lemma readBench_Inr:
  "readBench ev f r = (Inr x, r1) \<longleftrightarrow> f (bench r) = Inr x \<and> r1 = r\<lparr>trace := trace r @ [ev]\<rparr>"
  by (auto simp add: readBench_def)

lemma tryOpenBenchmark_Inr:
  "tryOpenBenchmark env r = (Inr x, r1) \<longleftrightarrow>
     snd (openBenchmark env (bench r)) = bench r1 \<and>
     trace r1 = trace r @ (case fst (openBenchmark env (bench r)) of None \<Rightarrow> []
                           | Some stack \<Rightarrow> [Log (Stack stack)])"
  by (cases "openBenchmark env (bench r)"; cases "fst (openBenchmark env (bench r))"; cases r1; cases r)
     (auto simp add: tryOpenBenchmark_def)

lemma forHeaders_Inr:
  "forHeaders env hs r = (Inr x, r1) \<Longrightarrow>
     \<exists>blks. map (getBlock env) hs = map (\<lambda>b. Inr (Some b)) blks \<and>
            addBlocks env blks (bench r) = Some (bench r1) \<and>
            trace r1 = trace r @ map AddBlock blks"
proof (induction hs arbitrary: r)
  case Nil
  then show ?case by (auto simp add: ret_Inr intro: exI [of _ "[]"])
next
  case (Cons h hs)
  from Cons.prems obtain b r2 where
    b: "getBlock env h = Inr (Some b)" and
    a: "addBlock env b (bench r) = (None, bench r2)" and
    t: "trace r2 = trace r @ [AddBlock b]" and
    rest: "forHeaders env hs r2 = (Inr x, r1)"
    by (auto elim!: bindM_InrE simp add: await_Inr isNotNull_Inr callBench_Inr)
  from Cons.IH [OF rest] obtain blks where
    "map (getBlock env) hs = map (\<lambda>b. Inr (Some b)) blks"
    "addBlocks env blks (bench r2) = Some (bench r1)"
    "trace r1 = trace r2 @ map AddBlock blks"
    by blast
  with b a t show ?case
    by (intro exI [of _ "b # blks"]) simp
qed

lemma forAwait_Inr:
  "forAwait env it r = (Inr x, r1) \<Longrightarrow>
     \<exists>hs blks. it = (hs, None) \<and>
            map (getBlock env) hs = map (\<lambda>b. Inr (Some b)) blks \<and>
            addBlocks env blks (bench r) = Some (bench r1) \<and>
            trace r1 = trace r @ map AddBlock blks"
  by (cases it; cases "snd it")
     (auto elim!: bindM_InrE simp add: forAwait_def ret_Inr throw_Inr dest: forHeaders_Inr)

lemma start_completed:
  assumes "start env = (Inr (), r)"
  shows "parseFlags env = Inr () \<and> openNode env = Inr () \<and> initBenchmark env = Inr () \<and>
    (\<exists>finalHeader hs blks s2 benchRootHash realRootHash n.
     \<not> isEmpty env \<and> blocksToBenchmark \<le> headSequence env \<and>
     getHeaderAtSequence env blocksToBenchmark = Inr (Some finalHeader) \<and>
     iterateTo env (genesis env) finalHeader = (hs, None) \<and>
     map (getBlock env) hs = map (\<lambda>b. Inr (Some b)) blks \<and>
     addBlocks env blks (snd (openBenchmark env (benchData env))) = Some s2 \<and>
     rehashTree env s2 = (None, bench r) \<and>
     rootHash env (bench r) = Inr benchRootHash \<and>
     pastRoot env (noteCommitmentSize finalHeader) = Inr realRootHash \<and>
     notesSize env (bench r) = Inr n \<and>
     trace r =
       [ActionStart ''Opening node'', ActionStop ''done.'', ActionStart ''Opening benchmark node'']
       @ (case fst (openBenchmark env (benchData env)) of None \<Rightarrow> []
          | Some stack \<Rightarrow> [Log (Stack stack)])
       @ [ActionStop ''done.'']
       @ map AddBlock blks
       @ [RehashTree, RootHash, Log (BenchHash benchRootHash), Log (RealHash realRootHash),
          Size, Log (RehashedNotes n), Log TimeToRehash, Log BenchmarkComplete])"
  using assms unfolding start_def
  apply (elim bindM_InrE)
  apply (drule forAwait_Inr)
  apply (clarsimp simp add: emit_Inr await_Inr ret_Inr throw_Inr isNotNull_Inr callBench_Inr
      readBench_Inr tryOpenBenchmark_Inr split: if_splits)
  apply (auto elim!: bindM_InrE simp add: throw_Inr)
  done

lemma forHeaders_completes:
  "map (getBlock env) hs = map (\<lambda>b. Inr (Some b)) blks \<Longrightarrow>
   addBlocks env blks (bench r) = Some s2 \<Longrightarrow>
   forHeaders env hs r = (Inr (), \<lparr>bench = s2, trace = trace r @ map AddBlock blks\<rparr>)"
proof (induction hs arbitrary: blks r)
  case Nil
  then show ?case by (cases r) (simp add: ret_def)
next
  case (Cons h hs)
  from Cons.prems(1) obtain b bs where blks: "blks = b # bs"
    and b: "getBlock env h = Inr (Some b)"
    and bs: "map (getBlock env) hs = map (\<lambda>b. Inr (Some b)) bs"
    by (cases blks) auto
  from Cons.prems(2) blks obtain s1 where a: "addBlock env b (bench r) = (None, s1)"
    and rest: "addBlocks env bs s1 = Some s2"
    by (auto split: prod.splits option.splits)
  have "forHeaders env hs \<lparr>bench = s1, trace = trace r @ [AddBlock b]\<rparr> =
      (Inr (), \<lparr>bench = s2, trace = (trace r @ [AddBlock b]) @ map AddBlock bs\<rparr>)"
    using Cons.IH [OF bs, of "\<lparr>bench = s1, trace = trace r @ [AddBlock b]\<rparr>"] rest by simp
  then show ?case
    using b a blks
    by (simp add: bindM_def await_def isNotNull_def ret_def callBench_def)
qed

lemma start_completes:
  fixes env :: "('s, 'blk) env"
  assumes "parseFlags env = Inr ()" "openNode env = Inr ()" "initBenchmark env = Inr ()"
    "\<not> isEmpty env" "blocksToBenchmark \<le> headSequence env"
    "getHeaderAtSequence env blocksToBenchmark = Inr (Some finalHeader)"
    "iterateTo env (genesis env) finalHeader = (hs, None)"
    "map (getBlock env) hs = map (\<lambda>b. Inr (Some b)) blks"
    "addBlocks env blks (snd (openBenchmark env (benchData env))) = Some s2"
    "rehashTree env s2 = (None, s3)"
    "rootHash env s3 = Inr benchRootHash"
    "pastRoot env (noteCommitmentSize finalHeader) = Inr realRootHash"
    "notesSize env s3 = Inr n"
  shows "start env = (Inr (), \<lparr>bench = s3, trace =
       [ActionStart ''Opening node'', ActionStop ''done.'', ActionStart ''Opening benchmark node'']
       @ (case fst (openBenchmark env (benchData env)) of None \<Rightarrow> []
          | Some stack \<Rightarrow> [Log (Stack stack)])
       @ [ActionStop ''done.'']
       @ map AddBlock blks
       @ [RehashTree, RootHash, Log (BenchHash benchRootHash), Log (RealHash realRootHash),
          Size, Log (RehashedNotes n), Log TimeToRehash, Log BenchmarkComplete]\<rparr>)"
proof -
  obtain st s1 where o: "openBenchmark env (benchData env) = (st, s1)"
    by (cases "openBenchmark env (benchData env)")
  define r1 :: "('s, 'blk) run" where "r1 = \<lparr>bench = s1, trace =
       [ActionStart ''Opening node'', ActionStop ''done.'', ActionStart ''Opening benchmark node'']
       @ (case st of None \<Rightarrow> [] | Some stack \<Rightarrow> [Log (Stack stack)])
       @ [ActionStop ''done.'']\<rparr>"
  have loop: "forAwait env (hs, None) r1 =
      (Inr (), \<lparr>bench = s2, trace = trace r1 @ map AddBlock blks\<rparr>)"
    using forHeaders_completes [OF assms(8), of r1 s2] assms(9) o
    by (simp add: forAwait_def bindM_def ret_def r1_def)
  show ?thesis
    using assms(1-7,10-13) o loop
    by (cases st)
       (simp_all add: start_def bindM_def emit_def await_def ret_def isNotNull_def
         tryOpenBenchmark_def callBench_def readBench_def r1_def)
qed

lemma start_guarded:
  assumes "isEmpty env \<or> headSequence env < blocksToBenchmark"
  shows "start env =
    (case parseFlags env of
       Inl e \<Rightarrow> (Inl e, \<lparr>bench = benchData env, trace = []\<rparr>)
     | Inr _ \<Rightarrow>
    (case openNode env of
       Inl e \<Rightarrow> (Inl e, \<lparr>bench = benchData env, trace = [ActionStart ''Opening node'']\<rparr>)
     | Inr _ \<Rightarrow>
        (case initBenchmark env of
           Inl e \<Rightarrow> (Inl e, \<lparr>bench = benchData env, trace =
              [ActionStart ''Opening node'', ActionStop ''done.'',
               ActionStart ''Opening benchmark node'']\<rparr>)
         | Inr _ \<Rightarrow>
            (Inl (ExitError 0),
             \<lparr>bench = snd (openBenchmark env (benchData env)),
              trace =
                [ActionStart ''Opening node'', ActionStop ''done.'',
                 ActionStart ''Opening benchmark node'']
                @ (case fst (openBenchmark env (benchData env)) of None \<Rightarrow> []
                   | Some stack \<Rightarrow> [Log (Stack stack)])
                @ [ActionStop ''done.'',
                   Log (if isEmpty env then TooCorrupt (chainDatabasePath env) else NeedSync)]\<rparr>))))"
proof -
  obtain st s1 where o: "openBenchmark env (benchData env) = (st, s1)"
    by (cases "openBenchmark env (benchData env)")
  show ?thesis
    using assms o
    by (cases "parseFlags env"; cases "openNode env"; cases "initBenchmark env"; cases st;
        cases "isEmpty env")
       (simp_all add: start_def bindM_def emit_def await_def ret_def throw_def
         tryOpenBenchmark_def)
qed

section \<open>The claims on the benchmark command\<close>

text \<open>
  Claim C7: as stated (\<open>start\<close> compares the root hash and the size of the benchmark tree
  against the past root of the reference tree) the claim fails: \<open>start\<close> logs the values.
  On a run where the two root hashes differ it returns as it does on a run where they are
  equal, and its trace differs only in the hash that is logged.
\<close>

theorem start_logs_roots_that_differ:
  "start exampleEnv =
     (Inr (),
      \<lparr>bench = [1, 500],
       trace = [ActionStart ''Opening node'', ActionStop ''done.'',
                ActionStart ''Opening benchmark node'', ActionStop ''done.'',
                AddBlock 1, AddBlock 500, RehashTree, RootHash,
                Log (BenchHash [1, 244]), Log (RealHash [232]), Size,
                Log (RehashedNotes 2), Log TimeToRehash, Log BenchmarkComplete]\<rparr>) \<and>
   rootHash exampleEnv [1, 500] = Inr [1, 244] \<and>
   pastRoot exampleEnv 1000 = Inr [232] \<and>
   [1, 244] \<noteq> [232 :: byte] \<and>
   start (exampleEnv\<lparr>pastRoot := \<lambda>n. Inr [1, 244]\<rparr>) =
     (Inr (),
      \<lparr>bench = [1, 500],
       trace = [ActionStart ''Opening node'', ActionStop ''done.'',
                ActionStart ''Opening benchmark node'', ActionStop ''done.'',
                AddBlock 1, AddBlock 500, RehashTree, RootHash,
                Log (BenchHash [1, 244]), Log (RealHash [1, 244]), Size,
                Log (RehashedNotes 2), Log TimeToRehash, Log BenchmarkComplete]\<rparr>)"
  by (simp add: exampleEnv_def start_def bindM_def emit_def await_def ret_def isNotNull_def
      tryOpenBenchmark_def callBench_def readBench_def forAwait_def blocksToBenchmark_def)

text \<open>
  Claim C7, amended: \<open>start\<close> completes exactly when both nodes open, the chain is not
  empty, its head is at sequence 500 or later, and no call throws or returns \<open>null\<close>. It
  has then added to the chain of the benchmark node, which it opens on a data directory of
  its own, the block of every header from the genesis header to the header at sequence 500,
  in the order \<open>iterateTo\<close> yields them; after that it has rehashed the tree of the benchmark
  node, logged its root hash next to the past root of the reference tree at the note
  commitment size of the header at sequence 500, and logged the size of the benchmark tree.
\<close>

theorem start_replays_and_logs_roots:
  "start env = (Inr (), r) \<longleftrightarrow>
    parseFlags env = Inr () \<and> openNode env = Inr () \<and> initBenchmark env = Inr () \<and>
    (\<exists>finalHeader hs blks s2 benchRootHash realRootHash n.
     \<not> isEmpty env \<and> blocksToBenchmark \<le> headSequence env \<and>
     getHeaderAtSequence env blocksToBenchmark = Inr (Some finalHeader) \<and>
     iterateTo env (genesis env) finalHeader = (hs, None) \<and>
     map (getBlock env) hs = map (\<lambda>b. Inr (Some b)) blks \<and>
     addBlocks env blks (snd (openBenchmark env (benchData env))) = Some s2 \<and>
     rehashTree env s2 = (None, bench r) \<and>
     rootHash env (bench r) = Inr benchRootHash \<and>
     pastRoot env (noteCommitmentSize finalHeader) = Inr realRootHash \<and>
     notesSize env (bench r) = Inr n \<and>
     trace r =
       [ActionStart ''Opening node'', ActionStop ''done.'', ActionStart ''Opening benchmark node'']
       @ (case fst (openBenchmark env (benchData env)) of None \<Rightarrow> []
          | Some stack \<Rightarrow> [Log (Stack stack)])
       @ [ActionStop ''done.'']
       @ map AddBlock blks
       @ [RehashTree, RootHash, Log (BenchHash benchRootHash), Log (RealHash realRootHash),
          Size, Log (RehashedNotes n), Log TimeToRehash, Log BenchmarkComplete])"
  (is "?lhs \<longleftrightarrow> ?rhs")
proof
  assume ?lhs
  then show ?rhs by (rule start_completed)
next
  assume ?rhs
  then obtain finalHeader hs blks s2 benchRootHash realRootHash n where
    f: "parseFlags env = Inr ()" "openNode env = Inr ()" "initBenchmark env = Inr ()"
      "\<not> isEmpty env" "blocksToBenchmark \<le> headSequence env"
      "getHeaderAtSequence env blocksToBenchmark = Inr (Some finalHeader)"
      "iterateTo env (genesis env) finalHeader = (hs, None)"
      "map (getBlock env) hs = map (\<lambda>b. Inr (Some b)) blks"
      "addBlocks env blks (snd (openBenchmark env (benchData env))) = Some s2"
      "rehashTree env s2 = (None, bench r)"
      "rootHash env (bench r) = Inr benchRootHash"
      "pastRoot env (noteCommitmentSize finalHeader) = Inr realRootHash"
      "notesSize env (bench r) = Inr n"
    and t: "trace r =
       [ActionStart ''Opening node'', ActionStop ''done.'', ActionStart ''Opening benchmark node'']
       @ (case fst (openBenchmark env (benchData env)) of None \<Rightarrow> []
          | Some stack \<Rightarrow> [Log (Stack stack)])
       @ [ActionStop ''done.'']
       @ map AddBlock blks
       @ [RehashTree, RootHash, Log (BenchHash benchRootHash), Log (RealHash realRootHash),
          Size, Log (RehashedNotes n), Log TimeToRehash, Log BenchmarkComplete]"
    by blast
  have "r = \<lparr>bench = bench r, trace = trace r\<rparr>" by simp
  then show ?lhs
    using start_completes [OF f] t by simp
qed

theorem start_replays_and_logs_roots_witness:
  "start exampleEnv =
     (Inr (),
      \<lparr>bench = [1, 500],
       trace = [ActionStart ''Opening node'', ActionStop ''done.'',
                ActionStart ''Opening benchmark node'', ActionStop ''done.'',
                AddBlock 1, AddBlock 500, RehashTree, RootHash,
                Log (BenchHash [1, 244]), Log (RealHash [232]), Size,
                Log (RehashedNotes 2), Log TimeToRehash, Log BenchmarkComplete]\<rparr>) \<and>
   getHeaderAtSequence exampleEnv blocksToBenchmark =
     Inr (Some \<lparr>sequence = 500, noteCommitmentSize = 1000\<rparr>) \<and>
   iterateTo exampleEnv (genesis exampleEnv) \<lparr>sequence = 500, noteCommitmentSize = 1000\<rparr> =
     ([genesis exampleEnv, \<lparr>sequence = 500, noteCommitmentSize = 1000\<rparr>], None) \<and>
   pastRoot exampleEnv 1000 = Inr [232]"
proof -
  have "start exampleEnv =
     (Inr (),
      \<lparr>bench = [1, 500],
       trace = [ActionStart ''Opening node'', ActionStop ''done.'',
                ActionStart ''Opening benchmark node'', ActionStop ''done.'',
                AddBlock 1, AddBlock 500, RehashTree, RootHash,
                Log (BenchHash [1, 244]), Log (RealHash [232]), Size,
                Log (RehashedNotes 2), Log TimeToRehash, Log BenchmarkComplete]\<rparr>)"
    apply (rule start_replays_and_logs_roots [THEN iffD2])
    apply (simp add: exampleEnv_def blocksToBenchmark_def)
    apply (rule exI [of _ "[1, 500]"])
    apply simp
    done
  then show ?thesis
    by (simp add: exampleEnv_def blocksToBenchmark_def)
qed

text \<open>
  Claim C10: as stated (no mutation of the benchmark tree when the chain is empty or its
  head is before sequence 500) the claim fails: the benchmark node is opened before the two
  tests, and what \<open>openDB\<close> and \<open>chain.open\<close> do to its store stays. Here the opening adds an
  entry to an empty store, the head is at sequence 499, and \<open>start\<close> exits with the store
  changed.
\<close>

theorem start_exits_with_opened_store:
  "headSequence (exampleEnv\<lparr>headSequence := 499, openBenchmark := \<lambda>s. (None, s @ [7])\<rparr>)
     < blocksToBenchmark \<and>
   benchData (exampleEnv\<lparr>headSequence := 499, openBenchmark := \<lambda>s. (None, s @ [7])\<rparr>) = [] \<and>
   start (exampleEnv\<lparr>headSequence := 499, openBenchmark := \<lambda>s. (None, s @ [7])\<rparr>) =
     (Inl (ExitError 0),
      \<lparr>bench = [7],
       trace = [ActionStart ''Opening node'', ActionStop ''done.'',
                ActionStart ''Opening benchmark node'', ActionStop ''done.'', Log NeedSync]\<rparr>)"
  by (simp add: exampleEnv_def start_def bindM_def emit_def await_def ret_def throw_def
      tryOpenBenchmark_def blocksToBenchmark_def)

text \<open>
  Claim C10, amended: when the chain is empty or its head is before sequence 500, \<open>start\<close>
  replays no block: it calls neither \<open>addBlock\<close> nor \<open>rehashTree\<close> and does not complete.
  Once both nodes are open it logs one message and exits with code 0; the store of the
  benchmark node is then what opening that node, which comes before the two tests, left.
\<close>

theorem start_exits_before_replay:
  assumes "isEmpty env \<or> headSequence env < blocksToBenchmark"
  shows "(\<forall>blk. AddBlock blk \<notin> set (trace (snd (start env)))) \<and>
     RehashTree \<notin> set (trace (snd (start env))) \<and>
     (\<exists>e. fst (start env) = Inl e) \<and>
     (parseFlags env = Inr () \<and> openNode env = Inr () \<and> initBenchmark env = Inr () \<longrightarrow>
        start env =
          (Inl (ExitError 0),
           \<lparr>bench = snd (openBenchmark env (benchData env)),
            trace =
              [ActionStart ''Opening node'', ActionStop ''done.'',
               ActionStart ''Opening benchmark node'']
              @ (case fst (openBenchmark env (benchData env)) of None \<Rightarrow> []
                 | Some stack \<Rightarrow> [Log (Stack stack)])
              @ [ActionStop ''done.'',
                 Log (if isEmpty env then TooCorrupt (chainDatabasePath env) else NeedSync)]\<rparr>))"
  unfolding start_guarded [OF assms]
  by (auto split: sum.splits option.splits)

theorem start_exits_before_replay_witness:
  "isEmpty (exampleEnv\<lparr>isEmpty := True, openBenchmark := \<lambda>s. (Some ''boom'', s @ [7])\<rparr>) \<and>
   start (exampleEnv\<lparr>isEmpty := True, openBenchmark := \<lambda>s. (Some ''boom'', s @ [7])\<rparr>) =
     (Inl (ExitError 0),
      \<lparr>bench = [7],
       trace = [ActionStart ''Opening node'', ActionStop ''done.'',
                ActionStart ''Opening benchmark node'', Log (Stack ''boom''),
                ActionStop ''done.'', Log (TooCorrupt ''/db'')]\<rparr>)"
proof -
  have g: "isEmpty (exampleEnv\<lparr>isEmpty := True, openBenchmark := \<lambda>s. (Some ''boom'', s @ [7])\<rparr>) \<or>
      headSequence (exampleEnv\<lparr>isEmpty := True, openBenchmark := \<lambda>s. (Some ''boom'', s @ [7])\<rparr>)
        < blocksToBenchmark"
    by (simp add: exampleEnv_def)
  from g start_exits_before_replay [OF g] show ?thesis
    by (simp add: exampleEnv_def)
qed

end
